theory Spec2Isabelle
  imports Main
begin

section \<open>The learning roadmap: data model\<close>

text \<open>
  \<^verbatim>\<open>src/models/learning_node.py\<close>: the enumeration \<^verbatim>\<open>NodeType\<close> and the dataclass
  \<^verbatim>\<open>LearningNode\<close>. The field \<^verbatim>\<open>id\<close> is called \<open>node_id\<close> here, since \<open>id\<close> is the
  identity function of HOL. Python's \<^verbatim>\<open>int\<close> is unbounded, hence \<open>int\<close>.
\<close>

datatype NodeType = START | TOPIC | END

record LearningNode =
  node_id :: string
  title :: string
  description :: string
  node_type :: NodeType
  subtopics :: "string list"
  prerequisites :: "string list"
  estimated_hours :: int
  resources :: "string list"

text \<open>
  The exceptions of the program: the \<^verbatim>\<open>ValueError\<close> of the constructor, and the
  \<^verbatim>\<open>RecursionError\<close> that the interpreter raises when calls nest too deep.
\<close>

datatype error = ValueError string | RecursionError

text \<open>
  The generated constructor followed by \<^verbatim>\<open>__post_init__\<close>: the two checks, in the
  order of the source; \<^verbatim>\<open>not self.id\<close> on a string is the test for the empty string.
\<close>

definition LearningNode_init ::
  "string \<Rightarrow> string \<Rightarrow> string \<Rightarrow> NodeType \<Rightarrow> string list \<Rightarrow> string list \<Rightarrow> int \<Rightarrow> string list
     \<Rightarrow> error + LearningNode" where
  "LearningNode_init i t d k subs pres hours res =
     (if i = [] then Inl (ValueError ''Node ID cannot be empty'')
      else if t = [] then Inl (ValueError ''Node title cannot be empty'')
      else Inr \<lparr>node_id = i, title = t, description = d, node_type = k, subtopics = subs,
                prerequisites = pres, estimated_hours = hours, resources = res\<rparr>)"

section \<open>The repository\<close>

text \<open>
  \<^verbatim>\<open>src/repositories/roadmap_repository.py\<close>. The attribute \<^verbatim>\<open>_nodes\<close> is a Python
  dictionary: it iterates in insertion order, and assigning to a key that is present
  replaces the value where it stands. An association list keeps that order.
\<close>

type_synonym RoadmapRepository = "(string \<times> LearningNode) list"

text \<open>\<^verbatim>\<open>d[k] = v\<close> on a dictionary.\<close>

fun dict_setitem :: "('k \<times> 'v) list \<Rightarrow> 'k \<Rightarrow> 'v \<Rightarrow> ('k \<times> 'v) list" where
  "dict_setitem [] k v = [(k, v)]"
| "dict_setitem ((k', v') # d) k v =
     (if k' = k then (k, v) # d else (k', v') # dict_setitem d k v)"

definition RoadmapRepository_init :: RoadmapRepository where
  "RoadmapRepository_init = []"

definition add_node :: "RoadmapRepository \<Rightarrow> LearningNode \<Rightarrow> RoadmapRepository" where
  "add_node repo node = dict_setitem repo (node_id node) node"

definition get_node_by_id :: "RoadmapRepository \<Rightarrow> string \<Rightarrow> LearningNode option" where
  "get_node_by_id repo i = map_of repo i"

definition get_all_nodes :: "RoadmapRepository \<Rightarrow> LearningNode list" where
  "get_all_nodes repo = map snd repo"

text \<open>
  What every repository built by \<open>add_node\<close> satisfies: the keys are pairwise different
  and each node is stored under its own id.
\<close>

definition repo_ok :: "RoadmapRepository \<Rightarrow> bool" where
  "repo_ok repo \<longleftrightarrow> distinct (map fst repo) \<and> list_all (\<lambda>(k, n). node_id n = k) repo"

subsection \<open>The default roadmap\<close>

definition start_node :: "error + LearningNode" where
  "start_node = LearningNode_init ''start'' ''Start''
     ''Beginning of the AI Engineering journey'' START [] [] 0 []"

definition llm_apis_node :: "error + LearningNode" where
  "llm_apis_node = LearningNode_init ''llm-apis'' ''LLM APIs''
     ''Understanding different types of LLMs and their APIs'' TOPIC
     [''Types of LLMs'', ''Structured Outputs'', ''Prompt Caching'', ''Multi-modal models'']
     [''start''] 20
     [''https://platform.openai.com/docs'', ''https://docs.anthropic.com/claude/docs'']"

definition model_adaptation_node :: "error + LearningNode" where
  "model_adaptation_node = LearningNode_init ''model-adaptation'' ''Model Adaptation''
     ''Techniques for adapting models to specific use cases'' TOPIC
     [''Prompt Engineering'', ''Tool Use'', ''Finetuning'']
     [''llm-apis''] 30
     [''https://arxiv.org/abs/2005.14165'', ''https://huggingface.co/docs/transformers/training'']"

definition storage_node :: "error + LearningNode" where
  "storage_node = LearningNode_init ''storage-retrieval'' ''Storage for Retrieval''
     ''Database solutions for AI applications'' TOPIC
     [''Vector Databases'', ''Graph Databases'', ''Hybrid retrieval'']
     [''llm-apis''] 25
     [''https://weaviate.io/developers/weaviate'', ''https://neo4j.com/docs/'']"

definition infrastructure_node :: "error + LearningNode" where
  "infrastructure_node = LearningNode_init ''infrastructure'' ''Infrastructure''
     ''Deployment and scaling of AI applications'' TOPIC
     [''Kubernetes'', ''Cloud Services'', ''CI/CD'', ''Model Routing'', ''LLM deployment'']
     [''model-adaptation'', ''storage-retrieval''] 40
     [''https://kubernetes.io/docs/'', ''https://aws.amazon.com/sagemaker/'']"

definition ai_agents_node :: "error + LearningNode" where
  "ai_agents_node = LearningNode_init ''ai-agents'' ''AI Agents''
     ''Building intelligent autonomous agents'' TOPIC
     [''AI Agent Design Patterns'', ''Multi-agent systems'', ''Memory + Tools'', ''Planning'',
      ''Finetuning'', ''ABL, AL, etc.'']
     [''model-adaptation'', ''storage-retrieval''] 50
     [''https://github.com/microsoft/autogen'', ''https://langchain.com/'']"

definition rag_node :: "error + LearningNode" where
  "rag_node = LearningNode_init ''rag-agentic'' ''RAG & Agentic RAG''
     ''Retrieval-Augmented Generation and agentic approaches'' TOPIC
     [''Data retrieval and generation'', ''Vector + Graph'', ''MCP'',
      ''LLM Orchestration Frameworks'']
     [''ai-agents'', ''storage-retrieval''] 35
     [''https://arxiv.org/abs/2005.11401'', ''https://github.com/langchain-ai/langchain'']"

definition observability_node :: "error + LearningNode" where
  "observability_node = LearningNode_init ''observability-evaluation''
     ''Observability & Evaluation'' ''Monitoring and evaluating AI systems'' TOPIC
     [''AI Agent instrumentation'', ''Observability platforms'', ''Evaluation techniques'',
      ''AI Agent Evaluation'']
     [''ai-agents'', ''rag-agentic''] 30
     [''https://weights-and-biases.github.io/'', ''https://docs.wandb.ai/'']"

definition security_node :: "error + LearningNode" where
  "security_node = LearningNode_init ''security'' ''Security''
     ''Security considerations for AI applications'' TOPIC
     [''Guardrails'', ''Testing LLM-based applications'', ''Secure orchestration'']
     [''infrastructure'', ''observability-evaluation''] 25
     [''https://owasp.org/www-project-ai-security-and-privacy-guide/'']"

definition forward_looking_node :: "error + LearningNode" where
  "forward_looking_node = LearningNode_init ''forward-looking'' ''Forward looking elements''
     ''Emerging trends and future technologies'' TOPIC
     [''Voice and Vision Agents'', ''Auto Agents'', ''Automated Prompt Engineering'']
     [''security'', ''observability-evaluation''] 20
     [''https://arxiv.org/abs/2310.12397'']"

definition end_node :: "error + LearningNode" where
  "end_node = LearningNode_init ''ai-engineer'' ''AI Engineer''
     ''Congratulations! You've completed the AI Engineering roadmap'' END [] [''forward-looking'']
     0 []"

text \<open>
  One statement pair of \<^verbatim>\<open>load_default_roadmap\<close>: construct the node, then
  \<^verbatim>\<open>self.add_node\<close> it. An exception of an earlier statement, or of the constructor,
  ends the method.
\<close>

definition construct_and_add ::
  "error + RoadmapRepository \<Rightarrow> error + LearningNode \<Rightarrow> error + RoadmapRepository" where
  "construct_and_add r n =
     (case r of
        Inl e \<Rightarrow> Inl e
      | Inr repo \<Rightarrow> (case n of Inl e \<Rightarrow> Inl e | Inr node \<Rightarrow> Inr (add_node repo node)))"

definition load_default_roadmap :: "RoadmapRepository \<Rightarrow> error + RoadmapRepository" where
  "load_default_roadmap repo =
     foldl construct_and_add (Inr repo)
       [start_node, llm_apis_node, model_adaptation_node, storage_node, infrastructure_node,
        ai_agents_node, rag_node, observability_node, security_node, forward_looking_node,
        end_node]"

section \<open>The service\<close>

text \<open>
  \<^verbatim>\<open>src/services/roadmap_service.py\<close>. The service holds the repository and nothing
  else, so each method takes the repository as its first argument.
\<close>

text \<open>Python's \<^verbatim>\<open>sum\<close>: a left fold from 0.\<close>

definition py_sum :: "int list \<Rightarrow> int" where
  "py_sum xs = foldl (+) 0 xs"

record overview =
  total_nodes :: int
  estimated_total_hours :: int

definition get_roadmap_overview :: "RoadmapRepository \<Rightarrow> overview" where
  "get_roadmap_overview repo =
     (let nodes = get_all_nodes repo;
          total_hours = py_sum (map estimated_hours nodes)
      in \<lparr>total_nodes = int (length nodes), estimated_total_hours = total_hours\<rparr>)"

text \<open>
  The inner function \<^verbatim>\<open>build_path\<close> of \<^verbatim>\<open>get_learning_path\<close>. It appends to the list
  \<^verbatim>\<open>path\<close> and adds to the set \<^verbatim>\<open>visited\<close> of the enclosing call; both are passed and
  returned here. \<open>build_path_prereqs\<close> is its \<^verbatim>\<open>for prereq_id in node.prerequisites\<close>
  loop.

  \<^verbatim>\<open>build_path\<close> calls itself, one interpreter frame for each level of prerequisites,
  and the interpreter allows only so many nested calls. The first argument is the
  number of nested calls of \<^verbatim>\<open>build_path\<close> that are still allowed: with none left the
  call raises \<^verbatim>\<open>RecursionError\<close>, which nothing in the service catches. Every call made
  by the loop of one activation runs one level below that activation.
\<close>

fun build_path ::
    "nat \<Rightarrow> RoadmapRepository \<Rightarrow> string \<Rightarrow> LearningNode list \<times> string set
       \<Rightarrow> error + LearningNode list \<times> string set"
  and build_path_prereqs ::
    "nat \<Rightarrow> RoadmapRepository \<Rightarrow> string list \<Rightarrow> LearningNode list \<times> string set
       \<Rightarrow> error + LearningNode list \<times> string set"
where
  "build_path 0 repo i st = Inl RecursionError"
| "build_path (Suc depth) repo i (path, visited) =
     (if i \<in> visited then Inr (path, visited)
      else case get_node_by_id repo i of
             None \<Rightarrow> Inr (path, visited)
           | Some node \<Rightarrow>
               (case build_path_prereqs depth repo (prerequisites node)
                       (path, insert i visited) of
                  Inl e \<Rightarrow> Inl e
                | Inr (path', visited') \<Rightarrow> Inr (path' @ [node], visited')))"
| "build_path_prereqs depth repo [] st = Inr st"
| "build_path_prereqs depth repo (prereq_id # rest) st =
     (case build_path depth repo prereq_id st of
        Inl e \<Rightarrow> Inl e
      | Inr st' \<Rightarrow> build_path_prereqs depth repo rest st')"

text \<open>
  The recursion limit of CPython when the program does not change it, which these
  sources never do. The frames of the callers count against it as well, so fewer
  nested calls of \<^verbatim>\<open>build_path\<close> than this are available to \<^verbatim>\<open>get_learning_path\<close>.
\<close>

definition default_recursion_limit :: nat where
  "default_recursion_limit = 1000"

text \<open>
  \<^verbatim>\<open>get_learning_path\<close>, with the number of nested calls of \<^verbatim>\<open>build_path\<close> that the
  interpreter allows at this point as first argument. The lookup of the target and
  the early return come before any call of \<^verbatim>\<open>build_path\<close>.
\<close>

definition get_learning_path ::
  "nat \<Rightarrow> RoadmapRepository \<Rightarrow> string \<Rightarrow> error + LearningNode list" where
  "get_learning_path depth repo target_node_id =
     (case get_node_by_id repo target_node_id of
        None \<Rightarrow> Inr []
      | Some target_node \<Rightarrow>
          (case build_path depth repo target_node_id ([], {}) of
             Inl e \<Rightarrow> Inl e
           | Inr (path, visited) \<Rightarrow> Inr path))"

text \<open>The loop of \<^verbatim>\<open>get_prerequisites\<close>, with the list it appends to.\<close>

fun prerequisites_loop ::
  "RoadmapRepository \<Rightarrow> string list \<Rightarrow> LearningNode list \<Rightarrow> LearningNode list" where
  "prerequisites_loop repo [] acc = acc"
| "prerequisites_loop repo (prereq_id # rest) acc =
     (case get_node_by_id repo prereq_id of
        None \<Rightarrow> prerequisites_loop repo rest acc
      | Some prereq_node \<Rightarrow> prerequisites_loop repo rest (acc @ [prereq_node]))"

definition get_prerequisites :: "RoadmapRepository \<Rightarrow> string \<Rightarrow> LearningNode list" where
  "get_prerequisites repo i =
     (case get_node_by_id repo i of
        None \<Rightarrow> []
      | Some node \<Rightarrow> prerequisites_loop repo (prerequisites node) [])"

text \<open>
  The loop of \<^verbatim>\<open>get_next_recommended_topics\<close>: the two \<^verbatim>\<open>continue\<close> tests, then
  \<^verbatim>\<open>all(...)\<close> over the prerequisites.
\<close>

fun recommended_loop ::
  "string set \<Rightarrow> LearningNode list \<Rightarrow> LearningNode list \<Rightarrow> LearningNode list" where
  "recommended_loop completed_set [] recommended = recommended"
| "recommended_loop completed_set (node # rest) recommended =
     (if node_id node \<in> completed_set then recommended_loop completed_set rest recommended
      else if node_type node \<in> set [START, END]
        then recommended_loop completed_set rest recommended
      else if list_all (\<lambda>prereq_id. prereq_id \<in> completed_set) (prerequisites node)
        then recommended_loop completed_set rest (recommended @ [node])
      else recommended_loop completed_set rest recommended)"

definition get_next_recommended_topics ::
  "RoadmapRepository \<Rightarrow> string list \<Rightarrow> LearningNode list" where
  "get_next_recommended_topics repo completed_topics =
     (let completed_set = set completed_topics;
          all_nodes = get_all_nodes repo
      in recommended_loop completed_set all_nodes [])"

fun remaining_loop :: "string set \<Rightarrow> LearningNode list \<Rightarrow> int \<Rightarrow> int" where
  "remaining_loop completed_set [] remaining_hours = remaining_hours"
| "remaining_loop completed_set (node # rest) remaining_hours =
     (if node_id node \<notin> completed_set
      then remaining_loop completed_set rest (remaining_hours + estimated_hours node)
      else remaining_loop completed_set rest remaining_hours)"

definition calculate_remaining_hours :: "RoadmapRepository \<Rightarrow> string list \<Rightarrow> int" where
  "calculate_remaining_hours repo completed_topics =
     (let completed_set = set completed_topics;
          all_nodes = get_all_nodes repo
      in remaining_loop completed_set all_nodes 0)"

section \<open>Notions used to state the properties\<close>

text \<open>
  The prerequisite relation of a repository: a stored node's id is related to each id
  in its prerequisites list.
\<close>

definition prerequisite_rel :: "RoadmapRepository \<Rightarrow> (string \<times> string) set" where
  "prerequisite_rel repo =
     {(i, p). \<exists>node. get_node_by_id repo i = Some node \<and> p \<in> set (prerequisites node)}"

text \<open>
  In a path, every prerequisite id of a node that the repository resolves belongs to
  a node at a smaller index.
\<close>

definition prereqs_before :: "RoadmapRepository \<Rightarrow> LearningNode list \<Rightarrow> bool" where
  "prereqs_before repo path \<longleftrightarrow>
     (\<forall>j<length path. \<forall>p\<in>set (prerequisites (path ! j)).
        get_node_by_id repo p \<noteq> None \<longrightarrow> (\<exists>i<j. node_id (path ! i) = p))"

text \<open>
  The ids that are marked but not yet appended: the nodes whose call of \<open>build_path\<close>
  is still running.
\<close>

definition gray :: "LearningNode list \<times> string set \<Rightarrow> string set" where
  "gray st = snd st - node_id ` set (fst st)"

definition path_inv :: "RoadmapRepository \<Rightarrow> LearningNode list \<times> string set \<Rightarrow> bool" where
  "path_inv repo st \<longleftrightarrow>
     distinct (map node_id (fst st)) \<and> node_id ` set (fst st) \<subseteq> snd st \<and>
     (\<forall>n\<in>set (fst st). get_node_by_id repo (node_id n) = Some n) \<and>
     prereqs_before repo (fst st)"

definition path_post ::
  "RoadmapRepository \<Rightarrow> LearningNode list \<times> string set \<Rightarrow> LearningNode list \<times> string set
     \<Rightarrow> bool" where
  "path_post repo st st' \<longleftrightarrow>
     path_inv repo st' \<and> gray st' = gray st \<and> set (fst st) \<subseteq> set (fst st')"

subsection \<open>A small repository with a diamond and a dangling prerequisite\<close>

definition demo_a :: LearningNode where
  "demo_a = \<lparr>node_id = ''a'', title = ''A'', description = [], node_type = START,
     subtopics = [], prerequisites = [], estimated_hours = 0, resources = []\<rparr>"

definition demo_b :: LearningNode where
  "demo_b = \<lparr>node_id = ''b'', title = ''B'', description = [], node_type = TOPIC,
     subtopics = [], prerequisites = [''a''], estimated_hours = 5, resources = []\<rparr>"

definition demo_c :: LearningNode where
  "demo_c = \<lparr>node_id = ''c'', title = ''C'', description = [], node_type = TOPIC,
     subtopics = [], prerequisites = [''a'', ''x''], estimated_hours = 7, resources = []\<rparr>"

definition demo_d :: LearningNode where
  "demo_d = \<lparr>node_id = ''d'', title = ''D'', description = [], node_type = END,
     subtopics = [], prerequisites = [''b'', ''c''], estimated_hours = 0, resources = []\<rparr>"

definition demo_repo :: RoadmapRepository where
  "demo_repo =
     add_node (add_node (add_node (add_node RoadmapRepository_init demo_a) demo_b) demo_c) demo_d"

text \<open>A rank on the ids of this repository that every prerequisite step lowers.\<close>

definition demo_rank :: "string \<Rightarrow> nat" where
  "demo_rank s = (if s = ''d'' then 2 else if s = ''b'' \<or> s = ''c'' then 1 else 0)"

subsection \<open>A repository that is one long chain\<close>

text \<open>
  Node \<open>k\<close> of the chain has the id made of \<open>k + 1\<close> letters and, except for node 0,
  the single prerequisite node \<open>k - 1\<close>. The repository is built with \<open>add_node\<close>.
\<close>

definition chain_id :: "nat \<Rightarrow> string" where
  "chain_id k = replicate (Suc k) CHR ''n''"

definition chain_node :: "nat \<Rightarrow> LearningNode" where
  "chain_node k = \<lparr>node_id = chain_id k, title = ''T'', description = [], node_type = TOPIC,
     subtopics = [], prerequisites = (case k of 0 \<Rightarrow> [] | Suc j \<Rightarrow> [chain_id j]),
     estimated_hours = 1, resources = []\<rparr>"

definition chain_repo :: "nat \<Rightarrow> RoadmapRepository" where
  "chain_repo n = foldl add_node RoadmapRepository_init (map chain_node [0..<n])"

section \<open>Facts about the repository\<close>

lemma map_of_dict_setitem: "map_of (dict_setitem d k v) = (map_of d)(k \<mapsto> v)"
  by (induction d k v rule: dict_setitem.induct) auto

lemma keys_dict_setitem:
  "map fst (dict_setitem d k v) = (if k \<in> fst ` set d then map fst d else map fst d @ [k])"
  by (induction d k v rule: dict_setitem.induct) auto

lemma set_dict_setitem:
  "distinct (map fst d) \<Longrightarrow>
     set (dict_setitem d k v) = {(k', v') \<in> set d. k' \<noteq> k} \<union> {(k, v)}"
  by (induction d k v rule: dict_setitem.induct) (auto intro: rev_image_eqI)

lemma repo_ok_init: "repo_ok RoadmapRepository_init"
  by (simp add: repo_ok_def RoadmapRepository_init_def)

lemma repo_ok_add_node: "repo_ok repo \<Longrightarrow> repo_ok (add_node repo node)"
  unfolding repo_ok_def add_node_def list_all_iff
  by (auto simp: keys_dict_setitem set_dict_setitem)

lemma repo_ok_lookup:
  "repo_ok repo \<Longrightarrow> get_node_by_id repo i = Some node \<Longrightarrow> node_id node = i"
  unfolding repo_ok_def get_node_by_id_def list_all_iff
  by (auto dest: map_of_SomeD)

lemma repo_ok_stored:
  "repo_ok repo \<Longrightarrow> node \<in> set (get_all_nodes repo) \<Longrightarrow>
     get_node_by_id repo (node_id node) = Some node"
  unfolding repo_ok_def get_node_by_id_def get_all_nodes_def list_all_iff
  by auto

lemma lookup_None_iff: "get_node_by_id repo i = None \<longleftrightarrow> i \<notin> fst ` set repo"
  by (simp add: get_node_by_id_def map_of_eq_None_iff)

lemma py_sum_eq: "py_sum xs = sum_list xs"
proof -
  have "foldl (+) a xs = a + sum_list xs" for a :: int
    by (induction xs arbitrary: a) (simp_all add: add.assoc)
  from this[of 0] show ?thesis by (simp add: py_sum_def)
qed

lemmas demo_nodes = demo_a_def demo_b_def demo_c_def demo_d_def

lemma demo_repo_eq:
  "demo_repo = [(''a'', demo_a), (''b'', demo_b), (''c'', demo_c), (''d'', demo_d)]"
  by (simp add: demo_repo_def RoadmapRepository_init_def add_node_def demo_nodes)

lemma demo_repo_ok: "repo_ok demo_repo"
  by (simp add: demo_repo_eq repo_ok_def demo_nodes)

lemma demo_repo_acyclic: "acyclic (prerequisite_rel demo_repo)"
proof -
  have "prerequisite_rel demo_repo \<subseteq> (measure demo_rank)\<inverse>"
    by (auto simp: prerequisite_rel_def get_node_by_id_def demo_repo_eq demo_nodes demo_rank_def
        split: if_splits)
  moreover have "acyclic ((measure demo_rank)\<inverse>)"
    by (simp add: wf_acyclic)
  ultimately show ?thesis by (rule acyclic_subset[rotated])
qed

section \<open>Node construction\<close>

text \<open>
  C6. Constructing a node fails exactly when the id or the title is empty, and
  succeeds exactly when both are non-empty, whatever the other fields hold.
\<close>

theorem LearningNode_init_fails_iff:
  "((\<exists>e. LearningNode_init i t d k subs pres hours res = Inl e) \<longleftrightarrow> (i = [] \<or> t = [])) \<and>
   ((\<exists>n. LearningNode_init i t d k subs pres hours res = Inr n) \<longleftrightarrow> (i \<noteq> [] \<and> t \<noteq> []))"
  by (simp add: LearningNode_init_def)

section \<open>Adding and loading nodes\<close>

text \<open>
  C9. Adding a node whose id is already a key of the repository replaces the stored
  node: the lookup of that id then gives the new node, the keys and their order stay
  the same, and so does the number of stored nodes.
\<close>

theorem add_node_overwrites:
  "get_node_by_id repo (node_id node) \<noteq> None \<Longrightarrow>
     get_node_by_id (add_node repo node) (node_id node) = Some node \<and>
     length (get_all_nodes (add_node repo node)) = length (get_all_nodes repo) \<and>
     map fst (add_node repo node) = map fst repo \<and>
     total_nodes (get_roadmap_overview (add_node repo node)) =
       total_nodes (get_roadmap_overview repo)"
proof -
  assume "get_node_by_id repo (node_id node) \<noteq> None"
  then have "node_id node \<in> fst ` set repo" by (simp add: lookup_None_iff)
  then have keys: "map fst (add_node repo node) = map fst repo"
    by (simp add: add_node_def keys_dict_setitem)
  from arg_cong[OF keys, of length]
  have len: "length (add_node repo node) = length repo" by simp
  show ?thesis using keys len
    by (simp add: get_node_by_id_def add_node_def map_of_dict_setitem get_all_nodes_def
        get_roadmap_overview_def)
qed

theorem add_node_overwrites_witness:
  "get_node_by_id demo_repo (node_id (demo_b\<lparr>estimated_hours := 9\<rparr>)) \<noteq> None \<and>
   get_node_by_id (add_node demo_repo (demo_b\<lparr>estimated_hours := 9\<rparr>)) ''b''
     = Some (demo_b\<lparr>estimated_hours := 9\<rparr>) \<and>
   length (get_all_nodes (add_node demo_repo (demo_b\<lparr>estimated_hours := 9\<rparr>))) = 4"
proof -
  have present: "get_node_by_id demo_repo (node_id (demo_b\<lparr>estimated_hours := 9\<rparr>)) \<noteq> None"
    by (simp add: get_node_by_id_def demo_repo_eq demo_nodes)
  from add_node_overwrites[OF present] present show ?thesis
    by (simp add: demo_b_def) (simp add: get_all_nodes_def demo_repo_eq)
qed

text \<open>
  C7. Loading the default roadmap into an empty repository succeeds; the repository
  then holds the eleven ids of the default roadmap, in this order, and the overview
  reports 11 nodes and 275 hours.
\<close>

theorem load_default_roadmap_overview:
  "\<exists>repo. load_default_roadmap RoadmapRepository_init = Inr repo \<and>
     map fst repo = [''start'', ''llm-apis'', ''model-adaptation'', ''storage-retrieval'',
       ''infrastructure'', ''ai-agents'', ''rag-agentic'', ''observability-evaluation'',
       ''security'', ''forward-looking'', ''ai-engineer''] \<and>
     get_roadmap_overview repo = \<lparr>total_nodes = 11, estimated_total_hours = 275\<rparr>"
  by (simp add: load_default_roadmap_def RoadmapRepository_init_def construct_and_add_def
      LearningNode_init_def add_node_def get_roadmap_overview_def get_all_nodes_def py_sum_def
      start_node_def llm_apis_node_def model_adaptation_node_def storage_node_def
      infrastructure_node_def ai_agents_node_def rag_node_def observability_node_def
      security_node_def forward_looking_node_def end_node_def)

section \<open>Recommendations and direct prerequisites\<close>

lemma recommended_loop_filter:
  "recommended_loop cs nodes acc =
     acc @ filter (\<lambda>n. node_id n \<notin> cs \<and> node_type n = TOPIC \<and> set (prerequisites n) \<subseteq> cs)
             nodes"
proof (induction cs nodes acc rule: recommended_loop.induct)
  case (1 cs acc)
  show ?case by simp
next
  case (2 cs node rest acc)
  have t: "node_type node = TOPIC \<longleftrightarrow> node_type node \<notin> set [START, END]"
    by (cases "node_type node") simp_all
  show ?case using 2 by (simp add: t list_all_iff subset_iff)
qed

text \<open>
  C2. The recommended topics are the stored nodes, in the iteration order of the
  repository, that are not completed, are of kind TOPIC, and have all their
  prerequisite ids among the completed ids; a node is in the result if and only if
  it is such a node.
\<close>

theorem get_next_recommended_topics_filter:
  "get_next_recommended_topics repo completed_ids =
     filter (\<lambda>n. node_id n \<notin> set completed_ids \<and> node_type n = TOPIC \<and>
                 set (prerequisites n) \<subseteq> set completed_ids) (get_all_nodes repo) \<and>
   (n \<in> set (get_next_recommended_topics repo completed_ids) \<longleftrightarrow>
      n \<in> set (get_all_nodes repo) \<and> node_id n \<notin> set completed_ids \<and> node_type n = TOPIC \<and>
      set (prerequisites n) \<subseteq> set completed_ids)"
  by (auto simp: get_next_recommended_topics_def recommended_loop_filter Let_def)

theorem get_next_recommended_topics_filter_witness:
  "get_next_recommended_topics demo_repo [''a''] = [demo_b] \<and>
   demo_c \<notin> set (get_next_recommended_topics demo_repo [''a''])"
  using get_next_recommended_topics_filter[of demo_repo "[''a'']" demo_c]
  by (simp add: get_all_nodes_def demo_repo_eq demo_nodes)

lemma prerequisites_loop_eq:
  "prerequisites_loop repo ps acc = acc @ List.map_filter (get_node_by_id repo) ps"
  by (induction repo ps acc rule: prerequisites_loop.induct)
     (simp_all split: option.splits)

text \<open>
  C8. For an id that is not stored, \<open>get_prerequisites\<close> returns the empty list. For a
  stored node it returns, in the listed order, the nodes stored under those ids of
  its prerequisites list that the repository resolves, and nothing for the others:
  the ids of the result are the listed ids that are keys of the repository, and each
  node of the result is the one stored under its id.
\<close>

theorem get_prerequisites_resolves:
  assumes "repo_ok repo"
  shows "case get_node_by_id repo i of
           None \<Rightarrow> get_prerequisites repo i = []
         | Some node \<Rightarrow>
             get_prerequisites repo i =
               map (\<lambda>p. the (get_node_by_id repo p))
                 (filter (\<lambda>p. get_node_by_id repo p \<noteq> None) (prerequisites node)) \<and>
             map node_id (get_prerequisites repo i) =
               filter (\<lambda>p. p \<in> fst ` set repo) (prerequisites node) \<and>
             list_all (\<lambda>n. get_node_by_id repo (node_id n) = Some n) (get_prerequisites repo i)"
proof (cases "get_node_by_id repo i")
  case None
  then show ?thesis by (simp add: get_prerequisites_def)
next
  case (Some node)
  let ?ps = "filter (\<lambda>p. get_node_by_id repo p \<noteq> None) (prerequisites node)"
  have eq: "get_prerequisites repo i = map (\<lambda>p. the (get_node_by_id repo p)) ?ps"
    by (simp add: get_prerequisites_def Some prerequisites_loop_eq List.map_filter_def comp_def)
  have own: "node_id (the (get_node_by_id repo p)) = p" if "get_node_by_id repo p \<noteq> None" for p
    using that repo_ok_lookup[OF assms] by auto
  have "map node_id (get_prerequisites repo i) = ?ps"
    unfolding eq map_map by (rule map_idI) (simp add: own)
  moreover have "?ps = filter (\<lambda>p. p \<in> fst ` set repo) (prerequisites node)"
    by (simp add: lookup_None_iff)
  moreover have "list_all (\<lambda>n. get_node_by_id repo (node_id n) = Some n)
      (get_prerequisites repo i)"
    unfolding eq list_all_iff using own by auto
  ultimately show ?thesis using eq by (simp add: Some)
qed

theorem get_prerequisites_resolves_witness:
  "repo_ok demo_repo \<and> get_prerequisites demo_repo ''c'' = [demo_a] \<and>
   get_prerequisites demo_repo ''x'' = []"
  using get_prerequisites_resolves[OF demo_repo_ok, of "''c''"]
    get_prerequisites_resolves[OF demo_repo_ok, of "''x''"] demo_repo_ok
  by (simp add: get_node_by_id_def demo_repo_eq demo_nodes)

section \<open>Dependence on the completed ids\<close>

lemma remaining_loop_sum:
  "remaining_loop cs nodes h =
     h + sum_list (map estimated_hours (filter (\<lambda>n. node_id n \<notin> cs) nodes))"
  by (induction cs nodes h rule: remaining_loop.induct) simp_all

text \<open>
  C10. Two lists of completed ids with the same set of elements give the same
  recommendations and the same remaining hours: order and repetition in the list do
  not matter.
\<close>

theorem completed_topics_as_set:
  "set completed1 = set completed2 \<Longrightarrow>
     get_next_recommended_topics repo completed1 = get_next_recommended_topics repo completed2 \<and>
     calculate_remaining_hours repo completed1 = calculate_remaining_hours repo completed2"
  by (simp add: get_next_recommended_topics_def calculate_remaining_hours_def Let_def)

theorem completed_topics_as_set_witness:
  "set [''a'', ''b'', ''a''] = set [''b'', ''a''] \<and>
   get_next_recommended_topics demo_repo [''a'', ''b'', ''a'']
     = get_next_recommended_topics demo_repo [''b'', ''a''] \<and>
   calculate_remaining_hours demo_repo [''a'', ''b'', ''a'']
     = calculate_remaining_hours demo_repo [''b'', ''a'']"
proof -
  have same: "set [''a'', ''b'', ''a''] = set [''b'', ''a'']" by auto
  from completed_topics_as_set[OF same, of demo_repo] same show ?thesis by blast
qed

section \<open>The learning path\<close>

text \<open>
  C5. For an id that is not stored, \<open>get_learning_path\<close> returns the empty list and
  raises nothing, whatever number of nested calls the interpreter allows: the early
  return comes before the first call of \<open>build_path\<close>.
\<close>

theorem get_learning_path_unknown:
  "get_node_by_id repo target_node_id = None \<Longrightarrow>
     get_learning_path depth repo target_node_id = Inr []"
  by (simp add: get_learning_path_def)

theorem get_learning_path_unknown_witness:
  "get_node_by_id demo_repo ''x'' = None \<and> get_learning_path 0 demo_repo ''x'' = Inr []"
proof -
  have absent: "get_node_by_id demo_repo ''x'' = None"
    by (simp add: get_node_by_id_def demo_repo_eq)
  from get_learning_path_unknown[OF absent] absent show ?thesis by simp
qed

lemma prereqs_before_snoc:
  assumes old: "prereqs_before repo path"
    and new: "\<forall>p\<in>set (prerequisites node).
                get_node_by_id repo p \<noteq> None \<longrightarrow> p \<in> node_id ` set path"
  shows "prereqs_before repo (path @ [node])"
  unfolding prereqs_before_def
proof (intro allI impI ballI)
  fix j p
  assume j: "j < length (path @ [node])"
    and p: "p \<in> set (prerequisites ((path @ [node]) ! j))"
    and stored: "get_node_by_id repo p \<noteq> None"
  show "\<exists>i<j. node_id ((path @ [node]) ! i) = p"
  proof (cases "j < length path")
    case True
    with p have "p \<in> set (prerequisites (path ! j))" by (simp add: nth_append)
    with old True stored obtain i where "i < j" "node_id (path ! i) = p"
      unfolding prereqs_before_def by blast
    with True show ?thesis by (auto simp: nth_append intro!: exI[of _ i])
  next
    case False
    with j have jl: "j = length path" by simp
    with p have "p \<in> set (prerequisites node)" by simp
    with new stored have "p \<in> node_id ` set path" by blast
    then obtain i where "i < length path" "node_id (path ! i) = p"
      by (auto simp: in_set_conv_nth)
    with jl show ?thesis by (auto simp: nth_append intro!: exI[of _ i])
  qed
qed

text \<open>A rank that every step of a relation lowers bounds the number of steps.\<close>

lemma relpow_rank:
  fixes rank :: "'a \<Rightarrow> nat"
  assumes step: "\<And>i p. (i, p) \<in> R \<Longrightarrow> rank p < rank i"
  shows "(i, q) \<in> R ^^ n \<Longrightarrow> rank q + n \<le> rank i"
proof (induction n arbitrary: q)
  case 0
  then show ?case by simp
next
  case (Suc n)
  then obtain y where "(i, y) \<in> R ^^ n" and "(y, q) \<in> R" by auto
  with Suc.IH[of y] step[of y q] show ?case by simp
qed

lemma demo_repo_rank:
  "(i, p) \<in> prerequisite_rel demo_repo \<Longrightarrow> demo_rank p < demo_rank i"
  by (auto simp: prerequisite_rel_def get_node_by_id_def demo_repo_eq demo_nodes demo_rank_def
      split: if_splits)

text \<open>
  The invariant of the traversal. A call of \<open>build_path\<close> for an id from which no
  running call can be reached, and from which no chain of prerequisite steps is as
  long as the number of nested calls allowed, returns; it keeps \<open>path_inv\<close>, leaves
  the set of running calls as it was, only extends the path, and leaves the id in
  the path if it is stored.
\<close>

lemma build_path_correct:
  assumes "repo_ok repo" and "acyclic (prerequisite_rel repo)"
  shows "path_inv repo st \<Longrightarrow> \<forall>g\<in>gray st. (i, g) \<notin> (prerequisite_rel repo)\<^sup>* \<Longrightarrow>
           \<forall>q. (i, q) \<notin> prerequisite_rel repo ^^ d \<Longrightarrow>
           (\<exists>st'. build_path d repo i st = Inr st' \<and> path_post repo st st' \<and>
              (get_node_by_id repo i \<noteq> None \<longrightarrow> i \<in> node_id ` set (fst st')) \<and>
              (\<forall>node. i \<notin> snd st \<and> get_node_by_id repo i = Some node \<longrightarrow>
                       (\<exists>pre. fst st' = pre @ [node])))"
    and "path_inv repo st \<Longrightarrow> \<forall>p\<in>set ps. \<forall>g\<in>gray st. (p, g) \<notin> (prerequisite_rel repo)\<^sup>* \<Longrightarrow>
           \<forall>p\<in>set ps. \<forall>q. (p, q) \<notin> prerequisite_rel repo ^^ d \<Longrightarrow>
           (\<exists>st'. build_path_prereqs d repo ps st = Inr st' \<and> path_post repo st st' \<and>
              (\<forall>p\<in>set ps. get_node_by_id repo p \<noteq> None \<longrightarrow> p \<in> node_id ` set (fst st')))"
  using assms
proof (induction d repo i st and d repo ps st rule: build_path_build_path_prereqs.induct)
  case (1 repo i st)
  from \<open>\<forall>q. (i, q) \<notin> prerequisite_rel repo ^^ 0\<close> show ?case by simp
next
  case (2 d repo i path visited)
  note ok = \<open>repo_ok repo\<close> and acyc = \<open>acyclic (prerequisite_rel repo)\<close>
    and inv = \<open>path_inv repo (path, visited)\<close>
    and nogray = \<open>\<forall>g\<in>gray (path, visited). (i, g) \<notin> (prerequisite_rel repo)\<^sup>*\<close>
    and shallow = \<open>\<forall>q. (i, q) \<notin> prerequisite_rel repo ^^ Suc d\<close>
  let ?R = "prerequisite_rel repo"
  show ?case
  proof (cases "i \<in> visited")
    case True
    then have eq: "build_path (Suc d) repo i (path, visited) = Inr (path, visited)"
      by simp
    have "i \<in> node_id ` set path"
    proof (rule ccontr)
      assume "i \<notin> node_id ` set path"
      with True have "i \<in> gray (path, visited)" by (simp add: gray_def)
      with nogray show False by blast
    qed
    with inv True show ?thesis by (simp add: eq path_post_def)
  next
    case False
    show ?thesis
    proof (cases "get_node_by_id repo i")
      case None
      with False have eq: "build_path (Suc d) repo i (path, visited) = Inr (path, visited)"
        by simp
      from inv None show ?thesis by (simp add: eq path_post_def)
    next
      case (Some node)
      define st1 where "st1 = (path, insert i visited)"
      have nid: "node_id node = i" using repo_ok_lookup[OF ok Some] .
      have i_notin: "i \<notin> node_id ` set path"
        using inv False by (auto simp: path_inv_def)
      have inv1: "path_inv repo st1"
        using inv by (auto simp: path_inv_def st1_def)
      have gray1: "gray st1 = insert i (gray (path, visited))"
        using i_notin by (auto simp: gray_def st1_def)
      have step: "(i, p) \<in> ?R" if "p \<in> set (prerequisites node)" for p
        using Some that by (auto simp: prerequisite_rel_def)
      have pre1: "\<forall>p\<in>set (prerequisites node). \<forall>g\<in>gray st1. (p, g) \<notin> ?R\<^sup>*"
      proof (intro ballI notI)
        fix p g
        assume p: "p \<in> set (prerequisites node)" and g: "g \<in> gray st1" and pg: "(p, g) \<in> ?R\<^sup>*"
        show False
        proof (cases "g = i")
          case True
          with step[OF p] pg have "(i, i) \<in> ?R\<^sup>+" by (auto intro: rtrancl_into_trancl2)
          with acyc show False by (auto simp: acyclic_def)
        next
          case False
          with g gray1 have "g \<in> gray (path, visited)" by simp
          moreover from step[OF p] pg have "(i, g) \<in> ?R\<^sup>*"
            by (auto intro: converse_rtrancl_into_rtrancl)
          ultimately show False using nogray by blast
        qed
      qed
      have depth1: "\<forall>p\<in>set (prerequisites node). \<forall>q. (p, q) \<notin> ?R ^^ d"
      proof (intro ballI allI notI)
        fix p q
        assume p: "p \<in> set (prerequisites node)" and pq: "(p, q) \<in> ?R ^^ d"
        from step[OF p] pq have "(i, q) \<in> ?R ^^ Suc d" by (rule relpow_Suc_I2)
        with shallow show False by blast
      qed
      from "2.IH"[OF False Some inv1[unfolded st1_def] pre1[unfolded st1_def] depth1 ok acyc]
      obtain st2 where run: "build_path_prereqs d repo (prerequisites node) st1 = Inr st2"
        and post2: "path_post repo st1 st2"
        and all_in: "\<forall>p\<in>set (prerequisites node). get_node_by_id repo p \<noteq> None \<longrightarrow>
                       p \<in> node_id ` set (fst st2)"
        unfolding st1_def by blast
      from False Some run
      have eq: "build_path (Suc d) repo i (path, visited) = Inr (fst st2 @ [node], snd st2)"
        by (simp add: st1_def split: prod.splits)
      from post2 have inv2: "path_inv repo st2"
        and gray2: "gray st2 = insert i (gray (path, visited))"
        and sub: "set path \<subseteq> set (fst st2)"
        using gray1 by (simp_all add: path_post_def st1_def)
      from gray2 have i_vis: "i \<in> snd st2" and i_new: "i \<notin> node_id ` set (fst st2)"
        by (auto simp: gray_def)
      have "prereqs_before repo (fst st2 @ [node])"
        using inv2 all_in by (intro prereqs_before_snoc) (simp_all add: path_inv_def)
      with inv2 i_vis i_new Some
      have inv3: "path_inv repo (fst st2 @ [node], snd st2)"
        by (auto simp: path_inv_def nid)
      have "gray (fst st2 @ [node], snd st2) = gray st2 - {i}"
        by (auto simp: gray_def nid)
      also have "\<dots> = gray (path, visited)"
        using gray2 False by (auto simp: gray_def)
      finally have gray3: "gray (fst st2 @ [node], snd st2) = gray (path, visited)" .
      from inv3 gray3 sub have "path_post repo (path, visited) (fst st2 @ [node], snd st2)"
        by (auto simp: path_post_def)
      then show ?thesis using Some unfolding eq by (simp add: nid)
    qed
  qed
next
  case (3 d repo st)
  then show ?case by (simp add: path_post_def)
next
  case (4 d repo prereq_id rest st)
  note ok = \<open>repo_ok repo\<close> and acyc = \<open>acyclic (prerequisite_rel repo)\<close>
    and inv = \<open>path_inv repo st\<close>
  from "4.prems" have pre_hd: "\<forall>g\<in>gray st. (prereq_id, g) \<notin> (prerequisite_rel repo)\<^sup>*"
    and pre_tl: "\<forall>p\<in>set rest. \<forall>g\<in>gray st. (p, g) \<notin> (prerequisite_rel repo)\<^sup>*"
    and depth_hd: "\<forall>q. (prereq_id, q) \<notin> prerequisite_rel repo ^^ d"
    and depth_tl: "\<forall>p\<in>set rest. \<forall>q. (p, q) \<notin> prerequisite_rel repo ^^ d"
    by simp_all
  from "4.IH"(1)[OF inv pre_hd depth_hd ok acyc]
  obtain st1 where run1: "build_path d repo prereq_id st = Inr st1"
    and post1: "path_post repo st st1"
    and hd_in: "get_node_by_id repo prereq_id \<noteq> None \<longrightarrow> prereq_id \<in> node_id ` set (fst st1)"
    by blast
  from post1 have inv1: "path_inv repo st1" and gray1: "gray st1 = gray st"
    and sub1: "set (fst st) \<subseteq> set (fst st1)"
    by (simp_all add: path_post_def)
  from pre_tl gray1 have pre1: "\<forall>p\<in>set rest. \<forall>g\<in>gray st1. (p, g) \<notin> (prerequisite_rel repo)\<^sup>*"
    by simp
  from "4.IH"(2)[OF run1 inv1 pre1 depth_tl ok acyc]
  obtain st2 where run2: "build_path_prereqs d repo rest st1 = Inr st2"
    and post2: "path_post repo st1 st2"
    and tl_in: "\<forall>p\<in>set rest. get_node_by_id repo p \<noteq> None \<longrightarrow> p \<in> node_id ` set (fst st2)"
    by blast
  from run1 run2 have eq: "build_path_prereqs d repo (prereq_id # rest) st = Inr st2"
    by simp
  from post1 post2 have "path_post repo st st2"
    by (auto simp: path_post_def)
  moreover from post2 hd_in
  have "get_node_by_id repo prereq_id \<noteq> None \<longrightarrow> prereq_id \<in> node_id ` set (fst st2)"
    by (auto simp: path_post_def)
  ultimately show ?case using tl_in unfolding eq by simp
qed

subsection \<open>The long chain\<close>

lemma dict_setitem_new: "k \<notin> fst ` set d \<Longrightarrow> dict_setitem d k v = d @ [(k, v)]"
  by (induction d k v rule: dict_setitem.induct) auto

lemma chain_id_eq_iff: "chain_id j = chain_id k \<longleftrightarrow> j = k"
proof
  assume "chain_id j = chain_id k"
  then have "length (chain_id j) = length (chain_id k)" by simp
  then show "j = k" by (simp add: chain_id_def)
qed simp

lemma chain_repo_eq: "chain_repo n = map (\<lambda>k. (chain_id k, chain_node k)) [0..<n]"
proof (induction n)
  case 0
  show ?case by (simp add: chain_repo_def RoadmapRepository_init_def)
next
  case (Suc n)
  have "chain_repo (Suc n) = add_node (chain_repo n) (chain_node n)"
    by (simp add: chain_repo_def)
  also have "\<dots> = dict_setitem (chain_repo n) (chain_id n) (chain_node n)"
    by (simp add: add_node_def chain_node_def)
  also have "\<dots> = chain_repo n @ [(chain_id n, chain_node n)]"
    by (rule dict_setitem_new) (auto simp: Suc.IH chain_id_eq_iff)
  finally show ?case by (simp add: Suc.IH)
qed

lemma chain_repo_ok: "repo_ok (chain_repo n)"
  by (auto simp: repo_ok_def chain_repo_eq list_all_iff chain_node_def distinct_map comp_def
      chain_id_eq_iff intro: inj_onI)

lemma chain_lookup: "k < n \<Longrightarrow> get_node_by_id (chain_repo n) (chain_id k) = Some (chain_node k)"
proof -
  assume "k < n"
  then have "(chain_id k, chain_node k) \<in> set (chain_repo n)"
    by (auto simp: chain_repo_eq)
  moreover have "distinct (map fst (chain_repo n))"
    using chain_repo_ok[of n] by (simp add: repo_ok_def)
  ultimately show ?thesis by (simp add: get_node_by_id_def)
qed

lemma chain_repo_rank:
  "(i, p) \<in> prerequisite_rel (chain_repo n) \<Longrightarrow> length p < length i"
proof -
  assume "(i, p) \<in> prerequisite_rel (chain_repo n)"
  then obtain node where "map_of (chain_repo n) i = Some node" and p: "p \<in> set (prerequisites node)"
    by (auto simp: prerequisite_rel_def get_node_by_id_def)
  then have "(i, node) \<in> set (chain_repo n)" by (auto dest: map_of_SomeD)
  then obtain k where "i = chain_id k" and "node = chain_node k"
    by (auto simp: chain_repo_eq)
  with p show ?thesis
    by (cases k) (simp_all add: chain_node_def chain_id_def)
qed

lemma chain_repo_acyclic: "acyclic (prerequisite_rel (chain_repo n))"
proof -
  have "prerequisite_rel (chain_repo n) \<subseteq> (measure length)\<inverse>"
    by (auto dest: chain_repo_rank)
  moreover have "acyclic ((measure length :: (string \<times> string) set)\<inverse>)"
    by (simp add: wf_acyclic)
  ultimately show ?thesis by (rule acyclic_subset[rotated])
qed

text \<open>
  On the chain, a call for node \<open>k\<close> with no more than \<open>k\<close> nested calls allowed runs
  out of them before it reaches node 0.
\<close>

lemma chain_build_path_raises:
  "d \<le> k \<Longrightarrow> k < n \<Longrightarrow> \<forall>j\<le>k. chain_id j \<notin> visited \<Longrightarrow>
     build_path d (chain_repo n) (chain_id k) (path, visited) = Inl RecursionError"
proof (induction d arbitrary: k path visited)
  case 0
  show ?case by simp
next
  case (Suc d)
  from Suc.prems(1) obtain k' where k: "k = Suc k'" by (cases k) simp_all
  from Suc.prems(3) have fresh: "chain_id k \<notin> visited" by simp
  have "\<forall>j\<le>k'. chain_id j \<notin> insert (chain_id k) visited"
    using Suc.prems(3) k by (auto simp: chain_id_eq_iff)
  with Suc.IH[of k' "insert (chain_id k) visited" path] Suc.prems(1,2) k
  have "build_path d (chain_repo n) (chain_id k') (path, insert (chain_id k) visited)
          = Inl RecursionError"
    by simp
  with fresh chain_lookup[OF Suc.prems(2)] show ?case
    by (simp add: k chain_node_def)
qed

lemma chain_learning_path_raises:
  "d \<le> k \<Longrightarrow> k < n \<Longrightarrow>
     get_learning_path d (chain_repo n) (chain_id k) = Inl RecursionError"
  using chain_build_path_raises[of d k n "{}" "[]"] chain_lookup[of k n]
  by (simp add: get_learning_path_def)

text \<open>
  C1, as stated, fails. A chain of 1001 nodes is a repository with an acyclic
  prerequisite relation, and its last node is stored; with the 1000 nested calls
  of the default recursion limit, more than any caller gets, the traversal raises
  \<open>RecursionError\<close> and returns no path.
\<close>

theorem get_learning_path_deep_chain_raises:
  "repo_ok (chain_repo 1001) \<and> acyclic (prerequisite_rel (chain_repo 1001)) \<and>
   get_node_by_id (chain_repo 1001) (chain_id 1000) \<noteq> None \<and>
   get_learning_path default_recursion_limit (chain_repo 1001) (chain_id 1000)
     = Inl RecursionError"
  using chain_repo_ok[of 1001] chain_repo_acyclic[of 1001] chain_lookup[of 1000 1001]
    chain_learning_path_raises[of 1000 1000 1001]
  by (simp add: default_recursion_limit_def)

text \<open>
  C1, amended. When the prerequisite relation of the repository is acyclic, the
  target id is stored, and no id lies as many prerequisite steps away from the
  target as the interpreter allows nested calls, the learning path is returned: it
  is not empty, its last node is the node stored under the target id, no node and
  no id occurs twice in it, and every prerequisite id of a node of the path that is
  stored belongs to a node strictly earlier in the path.
\<close>

theorem get_learning_path_within_depth:
  assumes "repo_ok repo" and "acyclic (prerequisite_rel repo)"
    and "get_node_by_id repo target_node_id \<noteq> None"
    and "\<forall>q. (target_node_id, q) \<notin> prerequisite_rel repo ^^ depth"
  shows "\<exists>path. get_learning_path depth repo target_node_id = Inr path \<and>
           path \<noteq> [] \<and>
           get_node_by_id repo target_node_id = Some (last path) \<and>
           node_id (last path) = target_node_id \<and>
           distinct path \<and> distinct (map node_id path) \<and>
           (\<forall>j<length path. \<forall>p\<in>set (prerequisites (path ! j)).
              get_node_by_id repo p \<noteq> None \<longrightarrow> (\<exists>i<j. node_id (path ! i) = p))"
proof -
  from assms(3) obtain node where node: "get_node_by_id repo target_node_id = Some node" by blast
  have inv0: "path_inv repo ([], {})"
    by (simp add: path_inv_def prereqs_before_def)
  have "\<forall>g\<in>gray ([], {}). (target_node_id, g) \<notin> (prerequisite_rel repo)\<^sup>*"
    by (simp add: gray_def)
  from build_path_correct(1)[OF assms(1,2) inv0 this assms(4)] node
  obtain st where run: "build_path depth repo target_node_id ([], {}) = Inr st"
    and p: "path_post repo ([], {}) st" and "\<exists>pre. fst st = pre @ [node]"
    by auto
  then obtain pre where pre: "fst st = pre @ [node]" by blast
  from run have path: "get_learning_path depth repo target_node_id = Inr (fst st)"
    by (simp add: get_learning_path_def node split: prod.splits)
  from p have inv: "path_inv repo st" by (simp add: path_post_def)
  then have d: "distinct (map node_id (fst st))" and pb: "prereqs_before repo (fst st)"
    by (simp_all add: path_inv_def)
  from d have "distinct (fst st)" by (simp add: distinct_map)
  with d pb pre node repo_ok_lookup[OF assms(1) node] show ?thesis
    unfolding path prereqs_before_def by simp
qed

text \<open>
  The path to the end of the diamond takes three nested calls; with two, the call
  for the start node cannot be made.
\<close>

lemma demo_learning_path:
  "get_learning_path 3 demo_repo ''d'' = Inr [demo_a, demo_b, demo_c, demo_d]"
  by (simp add: get_learning_path_def get_node_by_id_def demo_repo_eq demo_nodes
      numeral_3_eq_3)

lemma demo_learning_path_shallow: "get_learning_path 2 demo_repo ''d'' = Inl RecursionError"
  by (simp add: get_learning_path_def get_node_by_id_def demo_repo_eq demo_nodes
      numeral_2_eq_2)

theorem get_learning_path_within_depth_witness:
  "repo_ok demo_repo \<and> acyclic (prerequisite_rel demo_repo) \<and>
   get_node_by_id demo_repo ''d'' \<noteq> None \<and>
   (\<forall>q. (''d'', q) \<notin> prerequisite_rel demo_repo ^^ 3) \<and>
   (\<exists>path. get_learning_path 3 demo_repo ''d'' = Inr path \<and> path \<noteq> [] \<and>
      last path = demo_d \<and> distinct path \<and> prereqs_before demo_repo path)"
proof -
  have present: "get_node_by_id demo_repo ''d'' \<noteq> None"
    by (simp add: get_node_by_id_def demo_repo_eq)
  have stored: "get_node_by_id demo_repo ''d'' = Some demo_d"
    by (simp add: get_node_by_id_def demo_repo_eq)
  have shallow: "\<forall>q. (''d'', q) \<notin> prerequisite_rel demo_repo ^^ 3"
  proof (intro allI notI)
    fix q
    assume "(''d'', q) \<in> prerequisite_rel demo_repo ^^ 3"
    from relpow_rank[of "prerequisite_rel demo_repo" demo_rank, OF demo_repo_rank this]
    show False by (simp add: demo_rank_def)
  qed
  from get_learning_path_within_depth[OF demo_repo_ok demo_repo_acyclic present shallow]
    demo_repo_ok demo_repo_acyclic present shallow stored
  show ?thesis unfolding prereqs_before_def by auto
qed

section \<open>Effort arithmetic\<close>

lemma sum_list_split_filter:
  "sum_list (map f xs) = sum_list (map f (filter P xs)) + sum_list (map f (filter (\<lambda>x. \<not> P x) xs))"
  for f :: "'a \<Rightarrow> int"
  by (induction xs) simp_all

lemma repo_ok_distinct_nodes: "repo_ok repo \<Longrightarrow> distinct (get_all_nodes repo)"
proof -
  assume ok: "repo_ok repo"
  then have "map node_id (get_all_nodes repo) = map fst repo"
    unfolding repo_ok_def get_all_nodes_def list_all_iff by auto
  with ok have "distinct (map node_id (get_all_nodes repo))" by (simp add: repo_ok_def)
  then show ?thesis by (simp add: distinct_map)
qed

lemma completed_hours:
  assumes ok: "repo_ok repo" and d: "distinct completed" and sub: "set completed \<subseteq> fst ` set repo"
  shows "sum_list (map estimated_hours (filter (\<lambda>n. node_id n \<in> set completed) (get_all_nodes repo)))
       = (\<Sum>c\<leftarrow>completed. estimated_hours (the (get_node_by_id repo c)))"
proof -
  let ?f = "\<lambda>c. the (get_node_by_id repo c)"
  let ?L = "filter (\<lambda>n. node_id n \<in> set completed) (get_all_nodes repo)"
  have own: "node_id (?f c) = c \<and> ?f c \<in> set (get_all_nodes repo)" if "c \<in> set completed" for c
  proof -
    from that sub have "get_node_by_id repo c \<noteq> None" by (auto simp: lookup_None_iff)
    then obtain n where n: "get_node_by_id repo c = Some n" by blast
    then have "n \<in> set (get_all_nodes repo)"
      by (auto simp: get_node_by_id_def get_all_nodes_def dest!: map_of_SomeD intro: rev_image_eqI)
    with n repo_ok_lookup[OF ok n] show ?thesis by simp
  qed
  have inj: "inj_on ?f (set completed)"
    by (rule inj_on_inverseI[where g = node_id]) (simp add: own)
  have img: "?f ` set completed = set ?L"
  proof (intro equalityI subsetI)
    fix n assume "n \<in> ?f ` set completed"
    then show "n \<in> set ?L" using own by auto
  next
    fix n assume "n \<in> set ?L"
    then have "n \<in> set (get_all_nodes repo)" "node_id n \<in> set completed" by simp_all
    with repo_ok_stored[OF ok this(1)] show "n \<in> ?f ` set completed"
      by (auto intro!: image_eqI[where x = "node_id n"])
  qed
  have "sum_list (map estimated_hours ?L) = sum estimated_hours (set ?L)"
    using repo_ok_distinct_nodes[OF ok] by (simp add: sum_list_distinct_conv_sum_set)
  also have "\<dots> = sum estimated_hours (?f ` set completed)" by (simp only: img)
  also have "\<dots> = sum (\<lambda>c. estimated_hours (?f c)) (set completed)"
    using inj by (simp add: sum.reindex)
  also have "\<dots> = (\<Sum>c\<leftarrow>completed. estimated_hours (?f c))"
    using d by (simp add: sum_list_distinct_conv_sum_set)
  finally show ?thesis .
qed

text \<open>
  C3. For a list of completed ids without repetition, all of them stored, the
  remaining hours plus the hours of the nodes stored under the completed ids are the
  total hours of the overview.
\<close>

theorem remaining_plus_completed_hours:
  assumes "repo_ok repo" and "distinct completed_ids"
    and "set completed_ids \<subseteq> fst ` set repo"
  shows "calculate_remaining_hours repo completed_ids +
           (\<Sum>c\<leftarrow>completed_ids. estimated_hours (the (get_node_by_id repo c)))
         = estimated_total_hours (get_roadmap_overview repo)"
proof -
  have "estimated_total_hours (get_roadmap_overview repo)
      = sum_list (map estimated_hours (get_all_nodes repo))"
    by (simp add: get_roadmap_overview_def Let_def py_sum_eq)
  also have "\<dots> = sum_list (map estimated_hours (filter (\<lambda>n. node_id n \<in> set completed_ids) (get_all_nodes repo)))
     + sum_list (map estimated_hours (filter (\<lambda>n. node_id n \<notin> set completed_ids) (get_all_nodes repo)))"
    by (rule sum_list_split_filter)
  finally show ?thesis
    using completed_hours[OF assms]
    by (simp add: calculate_remaining_hours_def Let_def remaining_loop_sum)
qed

theorem remaining_plus_completed_hours_witness:
  "repo_ok demo_repo \<and> distinct [''a'', ''b''] \<and> set [''a'', ''b''] \<subseteq> fst ` set demo_repo \<and>
   calculate_remaining_hours demo_repo [''a'', ''b''] + (0 + 5)
     = estimated_total_hours (get_roadmap_overview demo_repo)"
proof -
  have d: "distinct [''a'', ''b'']" by simp
  have sub: "set [''a'', ''b''] \<subseteq> fst ` set demo_repo" by (simp add: demo_repo_eq)
  from remaining_plus_completed_hours[OF demo_repo_ok d sub] demo_repo_ok d sub
  show ?thesis by (simp add: get_node_by_id_def demo_repo_eq demo_nodes)
qed

text \<open>
  C4. The overview counts every stored node and adds up the hours of every stored
  node, of whatever kind: the count is the number of keys of the repository and the
  total is the sum of the hours over the keys.
\<close>

theorem get_roadmap_overview_all_nodes:
  assumes "distinct (map fst repo)"
  shows "total_nodes (get_roadmap_overview repo) = int (length (get_all_nodes repo)) \<and>
         estimated_total_hours (get_roadmap_overview repo)
           = sum_list (map estimated_hours (get_all_nodes repo)) \<and>
         total_nodes (get_roadmap_overview repo) = int (card (dom (get_node_by_id repo))) \<and>
         estimated_total_hours (get_roadmap_overview repo)
           = (\<Sum>i\<in>dom (get_node_by_id repo). estimated_hours (the (get_node_by_id repo i)))"
proof -
  have dom: "dom (get_node_by_id repo) = set (map fst repo)"
    by (simp add: get_node_by_id_def[abs_def] dom_map_of_conv_image_fst)
  have card: "card (dom (get_node_by_id repo)) = length repo"
    unfolding dom using distinct_card[OF assms] by simp
  have "map (\<lambda>i. estimated_hours (the (get_node_by_id repo i))) (map fst repo)
      = map estimated_hours (get_all_nodes repo)"
    using assms by (auto simp: get_node_by_id_def get_all_nodes_def)
  then have "sum_list (map estimated_hours (get_all_nodes repo))
      = (\<Sum>i\<leftarrow>map fst repo. estimated_hours (the (get_node_by_id repo i)))"
    by simp
  also have "\<dots> = (\<Sum>i\<in>dom (get_node_by_id repo). estimated_hours (the (get_node_by_id repo i)))"
    unfolding dom using assms by (rule sum_list_distinct_conv_sum_set)
  finally show ?thesis
    using card by (simp add: get_roadmap_overview_def Let_def py_sum_eq get_all_nodes_def)
qed

theorem get_roadmap_overview_all_nodes_witness:
  "distinct (map fst demo_repo) \<and>
   int (card (dom (get_node_by_id demo_repo))) = 4 \<and>
   (\<Sum>i\<in>dom (get_node_by_id demo_repo). estimated_hours (the (get_node_by_id demo_repo i))) = 12"
proof -
  have d: "distinct (map fst demo_repo)" by (simp add: demo_repo_eq)
  have "get_roadmap_overview demo_repo = \<lparr>total_nodes = 4, estimated_total_hours = 12\<rparr>"
    by (simp add: get_roadmap_overview_def get_all_nodes_def demo_repo_eq demo_nodes py_sum_def)
  with get_roadmap_overview_all_nodes[OF d] d show ?thesis by simp
qed

end
